theory Spec2Isabelle
  imports Complex_Main
begin

section \<open>CancellableMonitoredSemaphore (src/async_utils/cancellable_semaphore.py)\<close>

text \<open>
  The object has four mutable attributes: \<open>_max_value\<close>, \<open>_active_count\<close>,
  \<open>_available\<close> and the deque \<open>_waiters\<close> of \<open>asyncio.Future\<close> objects. Python
  integers are unbounded, so the counters are \<open>int\<close>. A future is named by the number
  of futures \<open>acquire\<close> created before it; since \<open>acquire\<close> appends every future it
  creates to the deque at once, future \<open>k\<close> is also the \<open>k\<close>-th waiter ever enqueued.
  The store \<open>fut\<close> holds the state of each future (\<open>PENDING\<close>, \<open>FINISHED\<close> after
  \<open>set_result\<close>, \<open>CANCELLED\<close> after \<open>cancel\<close>); \<open>waiter.done()\<close> is
  \<open>fut s w \<noteq> Pending\<close>. The list \<open>granted\<close> records the futures on which
  \<open>set_result\<close> was called, in call order: it is an observation of the run, not an
  attribute of the object, and no operation reads it.
\<close>

datatype fstate = Pending | Finished | Cancelled

datatype error = ValueError | CancelledError | RuntimeError

record semaphore =
  max_value :: int
  active_count :: int
  available :: int
  waiters :: "nat list"
  fut :: "nat \<Rightarrow> fstate"
  next_fut :: nat
  granted :: "nat list"

text \<open>\<open>__init__(value)\<close>: the limit and the free permits start at \<open>value\<close>.\<close>

definition init :: "int \<Rightarrow> semaphore" where
  "init v = \<lparr> max_value = v, active_count = 0, available = v, waiters = [],
              fut = (\<lambda>_. Pending), next_fut = 0, granted = [] \<rparr>"

subsection \<open>Status properties\<close>


definition current_limit :: "semaphore \<Rightarrow> int" where
  "current_limit s = max_value s"

definition available_permits :: "semaphore \<Rightarrow> int" where
  "available_permits s = available s"


subsection \<open>acquire\<close>

text \<open>
  No critical section of the class awaits anything while it holds \<open>_lock\<close>, so on the
  single event loop the lock is never contended and \<open>async with self._lock\<close> never
  suspends. \<open>acquire\<close> therefore runs in two atomic pieces. The first one,
  \<open>acquire_begin\<close>, goes from the call to either the early \<open>return\<close> (result
  \<open>None\<close>) or the suspension at \<open>await waiter\<close> (result \<open>Some w\<close>, the new future).
  The second one, \<open>acquire_resume\<close>, runs when the event loop resumes the caller: the
  flag says whether \<open>await waiter\<close> raised \<open>CancelledError\<close>.
\<close>

definition acquire_begin :: "semaphore \<Rightarrow> nat option \<times> semaphore" where
  "acquire_begin s =
     (if available s > 0
      then (None, s\<lparr> available := available s - 1, active_count := active_count s + 1 \<rparr>)
      else (Some (next_fut s),
            s\<lparr> waiters := waiters s @ [next_fut s],
               fut := (fut s)(next_fut s := Pending),
               next_fut := Suc (next_fut s) \<rparr>))"

definition acquire_resume :: "nat \<Rightarrow> bool \<Rightarrow> semaphore \<Rightarrow> error option \<times> semaphore" where
  "acquire_resume w raised s =
     (if raised
      then (Some CancelledError, s\<lparr> waiters := remove1 w (waiters s) \<rparr>)
      else (None, s\<lparr> active_count := active_count s + 1 \<rparr>))"

subsection \<open>release\<close>

text \<open>
  \<open>release()\<close> only schedules \<open>_release_async\<close> as a task. \<open>release_loop\<close> is the
  \<open>while self._waiters\<close> loop together with the two statements after it; its list
  argument is what is left of the deque.
\<close>

fun release_loop :: "nat list \<Rightarrow> semaphore \<Rightarrow> semaphore" where
  "release_loop [] s = s\<lparr> waiters := [], available := available s + 1 \<rparr>"
| "release_loop (w # ws) s =
     (if fut s w = Pending
      then s\<lparr> waiters := ws, fut := (fut s)(w := Finished), granted := granted s @ [w] \<rparr>
      else release_loop ws s)"

definition release_async :: "semaphore \<Rightarrow> semaphore" where
  "release_async s = release_loop (waiters s) (s\<lparr> active_count := active_count s - 1 \<rparr>)"

subsection \<open>update_limit\<close>

text \<open>\<open>wake_loop\<close> is \<open>for _ in range(to_wake)\<close> of the growing branch.\<close>

fun wake_loop :: "nat \<Rightarrow> semaphore \<Rightarrow> semaphore" where
  "wake_loop 0 s = s"
| "wake_loop (Suc k) s =
     (case waiters s of
        [] \<Rightarrow> wake_loop k s
      | w # ws \<Rightarrow>
          (if fut s w = Pending
           then wake_loop k (s\<lparr> waiters := ws, fut := (fut s)(w := Finished),
                                 granted := granted s @ [w], available := available s - 1 \<rparr>)
           else wake_loop k (s\<lparr> waiters := ws \<rparr>)))"

text \<open>
  \<open>cancel_loop\<close> is \<open>while len(self._waiters) > allowed_waiting\<close>. The bound is
  \<open>max(0, ...)\<close>, hence a natural number, and the deque is not empty when the body
  runs, so \<open>pop()\<close> cannot raise.
\<close>

function cancel_loop :: "nat \<Rightarrow> semaphore \<Rightarrow> semaphore" where
  "cancel_loop allowed s =
     (if length (waiters s) > allowed
      then (let w = last (waiters s);
                s1 = s\<lparr> waiters := butlast (waiters s) \<rparr>
            in cancel_loop allowed
                 (if fut s1 w = Pending then s1\<lparr> fut := (fut s1)(w := Cancelled) \<rparr> else s1))
      else s)"
  by pat_completeness auto
termination
  by (relation "measure (\<lambda>(allowed, s). length (waiters s))") auto

declare cancel_loop.simps [simp del]

definition update_limit :: "int \<Rightarrow> semaphore \<Rightarrow> error option \<times> semaphore" where
  "update_limit new_limit s =
     (if new_limit \<le> 0 then (Some ValueError, s)
      else if new_limit = max_value s then (None, s)
      else
        let old_limit = max_value s;
            s1 = s\<lparr> max_value := new_limit \<rparr>;
            new_available = new_limit - active_count s1;
            s2 = (if new_available < 0 then s1\<lparr> available := 0 \<rparr>
                  else
                    let s1a = s1\<lparr> available := new_available \<rparr>
                    in if new_limit > old_limit
                       then wake_loop (nat (min (int (length (waiters s1a))) new_available)) s1a
                       else s1a);
            s3 = (if new_limit < old_limit
                  then cancel_loop (nat (max 0 (new_limit - active_count s2))) s2
                  else s2)
        in (None, s3))"

subsection \<open>The limit fetched from the update URL\<close>

text \<open>
  \<open>response.json()\<close> yields Python values. \<open>isinstance(limit, int)\<close> holds for
  \<open>int\<close> and, \<open>bool\<close> being a subclass of \<open>int\<close>, for \<open>True\<close> and \<open>False\<close>, which
  compare and compute as 1 and 0. The outcome of \<open>requests.get\<close> is either an
  exception or a response with a status code and a body; the body is \<open>None\<close> when
  \<open>response.json()\<close> raises. Every exception inside the \<open>try\<close> (also the
  \<open>AttributeError\<close> of \<open>data.get\<close> on a value that is not a dict) ends in
  \<open>return None\<close>.
\<close>

datatype pyval =
    PNone | PBool bool | PInt int | PFloat rat | PStr string
  | PList "pyval list" | PDict "(string \<times> pyval) list"

datatype http = RequestFailed | Response int "pyval option"

fun isinstance_int :: "pyval \<Rightarrow> bool" where
  "isinstance_int (PBool b) = True"
| "isinstance_int (PInt i) = True"
| "isinstance_int v = False"

fun int_of_pyval :: "pyval \<Rightarrow> int" where
  "int_of_pyval (PBool b) = (if b then 1 else 0)"
| "int_of_pyval (PInt i) = i"
| "int_of_pyval v = 0"

definition dict_get :: "(string \<times> pyval) list \<Rightarrow> string \<Rightarrow> pyval" where
  "dict_get d k = (case map_of d k of None \<Rightarrow> PNone | Some v \<Rightarrow> v)"

definition fetch_limit_from_url :: "http \<Rightarrow> pyval option" where
  "fetch_limit_from_url r =
     (case r of
        RequestFailed \<Rightarrow> None
      | Response status_code body \<Rightarrow>
          if status_code = 200
          then (case body of
                  Some (PDict data) \<Rightarrow>
                    (let limit = dict_get data ''limit''
                     in if isinstance_int limit \<and> int_of_pyval limit > 0
                        then Some limit else None)
                | _ \<Rightarrow> None)
          else None)"

text \<open>
  One pass of \<open>_update_loop_thread\<close> after the sleep: the fetched value, if any, goes
  to \<open>update_limit\<close> when the event loop has been captured; an exception of
  \<open>update_limit\<close> is caught and logged there.
\<close>

definition update_tick :: "http \<Rightarrow> bool \<Rightarrow> semaphore \<Rightarrow> semaphore" where
  "update_tick r loop_captured s =
     (case fetch_limit_from_url r of
        None \<Rightarrow> s
      | Some new_limit \<Rightarrow>
          if loop_captured then snd (update_limit (int_of_pyval new_limit) s) else s)"

section \<open>Callers of the semaphore on the event loop\<close>

text \<open>
  An execution is a sequence of atomic steps of the event loop:
  \<^item> \<open>Acquire\<close>: some caller runs \<open>acquire()\<close> up to its return or its suspension;
  \<^item> \<open>Resume w\<close>: the caller suspended on future \<open>w\<close> is resumed, which the loop does
    only once \<open>w\<close> is done;
  \<^item> \<open>Cancel w\<close>: the task suspended on \<open>w\<close> is cancelled from outside
    (\<open>task.cancel()\<close>, a timeout). \<open>asyncio\<close> cancels the awaited future when it is
    still pending; when the future is already done the task is only marked, and
    \<open>CancelledError\<close> is thrown into it at its next resumption all the same;
  \<^item> \<open>Release\<close>: a caller that holds a permit calls \<open>release()\<close> from its
    coroutine, hence with the event loop running: one \<open>_release_async\<close> task is
    scheduled and the call returns;
  \<^item> \<open>RunRelease\<close>: a scheduled \<open>_release_async\<close> task runs;
  \<^item> \<open>SetLimit n\<close>: \<open>update_limit(n)\<close> runs; an exception it raises does not change
    the state.

  \<open>holders\<close> counts the \<open>acquire\<close> calls that returned normally and whose caller has
  not called \<open>release()\<close> yet; \<open>release_tasks\<close> the scheduled releases that have not
  run; \<open>awaiting\<close> the futures whose caller is still suspended. A step that is not
  enabled (a \<open>Release\<close> by nobody holding a permit, a \<open>Resume\<close> of a pending future)
  leaves the state as it is. The steps may interleave in any order, which covers the
  orders the event loop can produce.
\<close>

record world =
  sem :: semaphore
  holders :: nat
  release_tasks :: nat
  awaiting :: "nat set"
  must_cancel :: "nat set"

datatype event = Acquire | Resume nat | Cancel nat | Release | RunRelease | SetLimit int

text \<open>
  \<open>release()\<close> is \<open>asyncio.create_task(self._release_async())\<close> and nothing else.
  \<open>create_task\<close> needs a running event loop in the calling thread: with one it
  schedules the task and returns it, without one it raises \<open>RuntimeError\<close>. The flag
  says whether a loop is running where \<open>release()\<close> is called.
\<close>

definition release :: "bool \<Rightarrow> world \<Rightarrow> error option \<times> world" where
  "release loop_running x =
     (if loop_running then (None, x\<lparr> release_tasks := release_tasks x + 1 \<rparr>)
      else (Some RuntimeError, x))"

definition start :: "int \<Rightarrow> world" where
  "start v = \<lparr> sem = init v, holders = 0, release_tasks = 0, awaiting = {}, must_cancel = {} \<rparr>"

fun step :: "event \<Rightarrow> world \<Rightarrow> world" where
  "step Acquire x =
     (case acquire_begin (sem x) of
        (None, s') \<Rightarrow> x\<lparr> sem := s', holders := holders x + 1 \<rparr>
      | (Some w, s') \<Rightarrow> x\<lparr> sem := s', awaiting := insert w (awaiting x) \<rparr>)"
| "step (Resume w) x =
     (if w \<in> awaiting x \<and> fut (sem x) w \<noteq> Pending
      then (case acquire_resume w (fut (sem x) w = Cancelled \<or> w \<in> must_cancel x) (sem x) of
              (None, s') \<Rightarrow> x\<lparr> sem := s', holders := holders x + 1,
                                awaiting := awaiting x - {w} \<rparr>
            | (Some e, s') \<Rightarrow> x\<lparr> sem := s', awaiting := awaiting x - {w},
                                  must_cancel := must_cancel x - {w} \<rparr>)
      else x)"
| "step (Cancel w) x =
     (if w \<in> awaiting x
      then (if fut (sem x) w = Pending
            then x\<lparr> sem := (sem x)\<lparr> fut := (fut (sem x))(w := Cancelled) \<rparr> \<rparr>
            else x\<lparr> must_cancel := insert w (must_cancel x) \<rparr>)
      else x)"
| "step Release x =
     (if holders x > 0
      then (case release True x of
              (None, x') \<Rightarrow> x'\<lparr> holders := holders x' - 1 \<rparr>
            | (Some e, x') \<Rightarrow> x')
      else x)"
| "step RunRelease x =
     (if release_tasks x > 0
      then x\<lparr> release_tasks := release_tasks x - 1, sem := release_async (sem x) \<rparr>
      else x)"
| "step (SetLimit n) x = x\<lparr> sem := snd (update_limit n (sem x)) \<rparr>"

fun run :: "event list \<Rightarrow> world \<Rightarrow> world" where
  "run [] x = x"
| "run (e # es) x = run es (step e x)"

fun is_SetLimit :: "event \<Rightarrow> bool" where
  "is_SetLimit (SetLimit n) = True"
| "is_SetLimit e = False"

section \<open>MonitoredSemaphore (src/async_utils/semaphore_monitor.py)\<close>

text \<open>
  The class wraps an \<open>asyncio.Semaphore\<close> of the standard library, of which the model
  keeps the counter \<open>_value\<close> and the number of callers blocked in \<open>acquire()\<close>:
  \<open>acquire\<close> takes a permit when the counter is positive and blocks otherwise;
  \<open>release\<close> hands the permit to a blocked caller when there is one and increments the
  counter otherwise.
\<close>

record asyncio_semaphore =
  a_value :: int
  a_waiting :: nat

definition new_semaphore :: "int \<Rightarrow> asyncio_semaphore" where
  "new_semaphore v = \<lparr> a_value = v, a_waiting = 0 \<rparr>"

definition a_acquire :: "asyncio_semaphore \<Rightarrow> bool \<times> asyncio_semaphore" where
  "a_acquire a =
     (if a_value a > 0 then (True, a\<lparr> a_value := a_value a - 1 \<rparr>)
      else (False, a\<lparr> a_waiting := a_waiting a + 1 \<rparr>))"

definition a_release :: "asyncio_semaphore \<Rightarrow> bool \<times> asyncio_semaphore" where
  "a_release a =
     (if a_waiting a > 0 then (True, a\<lparr> a_waiting := a_waiting a - 1 \<rparr>)
      else (False, a\<lparr> a_value := a_value a + 1 \<rparr>))"

record monitored =
  m_semaphore :: asyncio_semaphore
  m_old_semaphores :: "asyncio_semaphore list"
  m_max_value :: int
  m_active_count :: int

definition m_init :: "int \<Rightarrow> monitored" where
  "m_init v = \<lparr> m_semaphore = new_semaphore v, m_old_semaphores = [],
                m_max_value = v, m_active_count = 0 \<rparr>"

definition m_current_limit :: "monitored \<Rightarrow> int" where
  "m_current_limit m = m_max_value m"

definition m_available_permits :: "monitored \<Rightarrow> int" where
  "m_available_permits m = m_max_value m - m_active_count m"


text \<open>
  \<open>m_update_limit_try\<close> is the body of the \<open>try\<close> in \<open>update_limit\<close>;
  \<open>m_update_limit\<close> adds the \<open>except Exception\<close> around it, which prints the
  exception and lets the coroutine return normally.
\<close>

definition m_update_limit_try :: "int \<Rightarrow> monitored \<Rightarrow> error option \<times> monitored" where
  "m_update_limit_try new_limit m =
     (if new_limit \<le> 0 then (Some ValueError, m)
      else if new_limit = m_max_value m then (None, m)
      else (None, m\<lparr> m_old_semaphores := m_old_semaphores m @ [m_semaphore m],
                      m_semaphore := new_semaphore new_limit,
                      m_max_value := new_limit \<rparr>))"

definition m_update_limit :: "int \<Rightarrow> monitored \<Rightarrow> error option \<times> monitored" where
  "m_update_limit new_limit m =
     (case m_update_limit_try new_limit m of
        (Some e, m') \<Rightarrow> (None, m')
      | (None, m') \<Rightarrow> (None, m'))"

text \<open>
  \<open>__aenter__\<close> acquires the semaphore that is current at the call and then counts the
  caller; \<open>__aexit__\<close> uncounts it and releases the semaphore that is current then.
  \<open>m_woken\<close> counts the callers a release has unblocked and that have not resumed.
\<close>

record mworld =
  mon :: monitored
  m_holders :: nat
  m_woken :: nat

definition m_start :: "int \<Rightarrow> mworld" where
  "m_start v = \<lparr> mon = m_init v, m_holders = 0, m_woken = 0 \<rparr>"

fun m_step :: "event \<Rightarrow> mworld \<Rightarrow> mworld" where
  "m_step Acquire x =
     (case a_acquire (m_semaphore (mon x)) of
        (True, a') \<Rightarrow>
          x\<lparr> mon := (mon x)\<lparr> m_semaphore := a', m_active_count := m_active_count (mon x) + 1 \<rparr>,
             m_holders := m_holders x + 1 \<rparr>
      | (False, a') \<Rightarrow> x\<lparr> mon := (mon x)\<lparr> m_semaphore := a' \<rparr> \<rparr>)"
| "m_step (Resume w) x =
     (if m_woken x > 0
      then x\<lparr> mon := (mon x)\<lparr> m_active_count := m_active_count (mon x) + 1 \<rparr>,
              m_holders := m_holders x + 1, m_woken := m_woken x - 1 \<rparr>
      else x)"
| "m_step Release x =
     (if m_holders x > 0
      then (case a_release (m_semaphore (mon x)) of
              (woke, a') \<Rightarrow>
                x\<lparr> mon := (mon x)\<lparr> m_active_count := m_active_count (mon x) - 1,
                                    m_semaphore := a' \<rparr>,
                   m_holders := m_holders x - 1,
                   m_woken := (if woke then m_woken x + 1 else m_woken x) \<rparr>)
      else x)"
| "m_step (SetLimit n) x = x\<lparr> mon := snd (m_update_limit n (mon x)) \<rparr>"
| "m_step e x = x"

fun m_run :: "event list \<Rightarrow> mworld \<Rightarrow> mworld" where
  "m_run [] x = x"
| "m_run (e # es) x = m_run es (m_step e x)"

section \<open>Auxiliary notions for the proofs\<close>

text \<open>
  \<open>woken k s\<close>: the waiters among the first \<open>k\<close> of the queue that are still
  pending, in queue order.
\<close>

definition woken :: "nat \<Rightarrow> semaphore \<Rightarrow> nat list" where
  "woken k s = filter (\<lambda>w. fut s w = Pending) (take k (waiters s))"


text \<open>
  The two local quantities of \<open>update_limit\<close>: \<open>to_wake\<close> of the growing branch
  and \<open>allowed_waiting\<close> of the shrinking branch.
\<close>

definition to_wake :: "int \<Rightarrow> semaphore \<Rightarrow> nat" where
  "to_wake n s = nat (min (int (length (waiters s))) (n - active_count s))"

definition allowed_waiting :: "int \<Rightarrow> semaphore \<Rightarrow> nat" where
  "allowed_waiting n s = nat (max 0 (n - active_count s))"

text \<open>
  \<open>inflight A f\<close>: the futures of suspended callers on which \<open>set_result\<close> has been
  called: permits that a release or a resize has handed over and that the receiver
  has not counted in \<open>_active_count\<close> yet.
\<close>

definition inflight :: "nat set \<Rightarrow> (nat \<Rightarrow> fstate) \<Rightarrow> nat set" where
  "inflight A f = {w \<in> A. f w = Finished}"

text \<open>The accounting invariant of an execution at the fixed limit \<open>L\<close>.\<close>

definition accounted :: "int \<Rightarrow> world \<Rightarrow> bool" where
  "accounted L x \<longleftrightarrow>
     max_value (sem x) = L \<and>
     active_count (sem x) = int (holders x + release_tasks x) \<and>
     0 \<le> available (sem x) \<and>
     finite (awaiting x) \<and>
     int (holders x + release_tasks x) + available (sem x)
       + int (card (inflight (awaiting x) (fut (sem x)))) \<le> L"

text \<open>
  The order invariant: the futures granted so far, followed by the queue, are in
  strictly increasing order of creation, and all of them have been created.
\<close>

definition queue_ordered :: "semaphore \<Rightarrow> bool" where
  "queue_ordered s \<longleftrightarrow>
     sorted_wrt (<) (granted s @ waiters s) \<and>
     (\<forall>w \<in> set (granted s @ waiters s). w < next_fut s)"

section \<open>The loops in closed form\<close>

lemmas sem_defs =
  eval_nat_numeral start_def init_def acquire_begin_def acquire_resume_def release_def
  release_async_def update_limit_def cancel_loop.simps Let_def

lemmas mon_defs =
  m_start_def m_init_def new_semaphore_def a_acquire_def a_release_def
  m_update_limit_def m_update_limit_try_def m_available_permits_def

lemma release_loop_eq:
  "release_loop ws s =
     (case dropWhile (\<lambda>w. fut s w \<noteq> Pending) ws of
        [] \<Rightarrow> s\<lparr> waiters := [], available := available s + 1 \<rparr>
      | w # rest \<Rightarrow> s\<lparr> waiters := rest, fut := (fut s)(w := Finished), granted := granted s @ [w] \<rparr>)"
  by (induction ws) simp_all

lemma release_async_eq:
  "release_async s =
     (case dropWhile (\<lambda>w. fut s w \<noteq> Pending) (waiters s) of
        [] \<Rightarrow> s\<lparr> active_count := active_count s - 1, waiters := [], available := available s + 1 \<rparr>
      | w # rest \<Rightarrow> s\<lparr> active_count := active_count s - 1, waiters := rest,
                        fut := (fut s)(w := Finished), granted := granted s @ [w] \<rparr>)"
  by (simp add: release_async_def release_loop_eq cong: list.case_cong)

lemma drop_snoc_last:
  "a < length ws \<Longrightarrow> set (drop a ws) = insert (last ws) (set (drop a (butlast ws)))"
proof -
  assume a: "a < length ws"
  then have ne: "ws \<noteq> []" by auto
  then obtain ys y where ws: "ws = ys @ [y]" by (metis append_butlast_last_id)
  with a show ?thesis by simp
qed

lemma cancel_loop_eq:
  "cancel_loop a s =
     s\<lparr> waiters := take a (waiters s),
        fut := (\<lambda>w. if w \<in> set (drop a (waiters s)) \<and> fut s w = Pending then Cancelled else fut s w) \<rparr>"
proof (induction a s rule: cancel_loop.induct)
  case (1 a s)
  show ?case
  proof (cases "a < length (waiters s)")
    case False
    then show ?thesis by (subst cancel_loop.simps) simp
  next
    case True
    define w where "w = last (waiters s)"
    define s1 where "s1 = s\<lparr> waiters := butlast (waiters s) \<rparr>"
    define s2 where "s2 = (if fut s1 w = Pending then s1\<lparr> fut := (fut s1)(w := Cancelled) \<rparr> else s1)"
    have IH: "cancel_loop a s2 =
       s2\<lparr> waiters := take a (waiters s2),
          fut := (\<lambda>v. if v \<in> set (drop a (waiters s2)) \<and> fut s2 v = Pending then Cancelled else fut s2 v) \<rparr>"
      using "1.IH" [OF True w_def s1_def] unfolding s2_def .
    have unf: "cancel_loop a s = cancel_loop a s2"
      using True by (subst cancel_loop.simps) (simp add: Let_def w_def s1_def s2_def)
    have ws2: "waiters s2 = butlast (waiters s)" by (simp add: s2_def s1_def)
    have tk: "take a (waiters s2) = take a (waiters s)"
      using True by (simp add: ws2 take_butlast)
    have dr: "set (drop a (waiters s)) = insert w (set (drop a (waiters s2)))"
      using drop_snoc_last [OF True] by (simp add: ws2 w_def)
    have f: "(\<lambda>v. if v \<in> set (drop a (waiters s2)) \<and> fut s2 v = Pending then Cancelled else fut s2 v)
           = (\<lambda>v. if v \<in> set (drop a (waiters s)) \<and> fut s v = Pending then Cancelled else fut s v)"
      by (rule ext) (auto simp: dr s2_def s1_def)
    show ?thesis
      unfolding unf IH tk f by (simp add: s2_def s1_def)
  qed
qed

lemma wake_loop_eq:
  "k \<le> length (waiters s) \<Longrightarrow> distinct (waiters s) \<Longrightarrow>
   wake_loop k s =
     s\<lparr> waiters := drop k (waiters s),
        fut := (\<lambda>w. if w \<in> set (woken k s) then Finished else fut s w),
        granted := granted s @ woken k s,
        available := available s - int (length (woken k s)) \<rparr>"
proof (induction k arbitrary: s)
  case 0
  then show ?case by (simp add: woken_def)
next
  case (Suc k)
  then obtain w ws where ws: "waiters s = w # ws" by (cases "waiters s") auto
  with Suc.prems have k: "k \<le> length ws" and nin: "w \<notin> set ws" and d: "distinct ws" by auto
  show ?case
  proof (cases "fut s w = Pending")
    case False
    define s1 where "s1 = s\<lparr> waiters := ws \<rparr>"
    have w1: "woken k s1 = woken (Suc k) s"
      using False by (simp add: woken_def s1_def ws)
    have f: "(\<lambda>v. if v \<in> set (woken k s1) then Finished else fut s1 v)
           = (\<lambda>v. if v \<in> set (woken (Suc k) s) then Finished else fut s v)"
      unfolding w1 by (simp add: s1_def cong: if_cong)
    have st: "wake_loop (Suc k) s = wake_loop k s1"
      using False by (simp add: ws s1_def)
    have ih: "wake_loop k s1 = s1\<lparr> waiters := drop k (waiters s1),
        fut := (\<lambda>v. if v \<in> set (woken k s1) then Finished else fut s1 v),
        granted := granted s1 @ woken k s1,
        available := available s1 - int (length (woken k s1)) \<rparr>"
      using Suc.IH [of s1] k d by (simp add: s1_def)
    show ?thesis unfolding st ih unfolding f unfolding w1 by (simp add: s1_def ws)
  next
    case True
    define s1 where "s1 = s\<lparr> waiters := ws, fut := (fut s)(w := Finished),
                              granted := granted s @ [w], available := available s - 1 \<rparr>"
    have "filter (\<lambda>v. fut s1 v = Pending) (take k ws) = filter (\<lambda>v. fut s v = Pending) (take k ws)"
      using nin by (intro filter_cong refl) (auto simp: s1_def dest: in_set_takeD)
    then have w1: "woken (Suc k) s = w # woken k s1"
      using True by (simp add: woken_def s1_def ws)
    have f: "(\<lambda>v. if v \<in> set (woken k s1) then Finished else fut s1 v)
           = (\<lambda>v. if v \<in> set (woken (Suc k) s) then Finished else fut s v)"
      unfolding w1 by (rule ext) (simp add: s1_def)
    have st: "wake_loop (Suc k) s = wake_loop k s1"
      using True by (simp add: ws s1_def)
    have ih: "wake_loop k s1 = s1\<lparr> waiters := drop k (waiters s1),
        fut := (\<lambda>v. if v \<in> set (woken k s1) then Finished else fut s1 v),
        granted := granted s1 @ woken k s1,
        available := available s1 - int (length (woken k s1)) \<rparr>"
      using Suc.IH [of s1] k d by (simp add: s1_def)
    show ?thesis unfolding st ih unfolding f unfolding w1 by (simp add: s1_def ws)
  qed
qed

section \<open>update_limit in closed form\<close>

lemma update_limit_invalid: "n \<le> 0 \<Longrightarrow> update_limit n s = (Some ValueError, s)"
  by (simp add: update_limit_def)

lemma update_limit_same: "0 < n \<Longrightarrow> n = max_value s \<Longrightarrow> update_limit n s = (None, s)"
  by (simp add: update_limit_def)

lemma update_limit_shrink:
  assumes "0 < n" and "n < max_value s"
  shows "update_limit n s =
     (None, s\<lparr> max_value := n,
               available := (if n < active_count s then 0 else n - active_count s),
               waiters := take (allowed_waiting n s) (waiters s),
               fut := (\<lambda>w. if w \<in> set (drop (allowed_waiting n s) (waiters s)) \<and> fut s w = Pending
                            then Cancelled else fut s w) \<rparr>)"
  using assms
  by (simp add: update_limit_def Let_def cancel_loop_eq allowed_waiting_def cong: if_cong)

lemma update_limit_grow:
  assumes "0 < n" and "max_value s < n" and "active_count s \<le> n" and "distinct (waiters s)"
  shows "update_limit n s =
     (None, s\<lparr> max_value := n,
               available := n - active_count s - int (length (woken (to_wake n s) s)),
               waiters := drop (to_wake n s) (waiters s),
               fut := (\<lambda>w. if w \<in> set (woken (to_wake n s) s) then Finished else fut s w),
               granted := granted s @ woken (to_wake n s) s \<rparr>)"
proof -
  define s1 where "s1 = s\<lparr> max_value := n, available := n - active_count s \<rparr>"
  have k: "to_wake n s \<le> length (waiters s1)" by (simp add: to_wake_def s1_def)
  have d: "distinct (waiters s1)" using assms(4) by (simp add: s1_def)
  have w: "woken (to_wake n s) s1 = woken (to_wake n s) s" by (simp add: woken_def s1_def)
  have "update_limit n s = (None, wake_loop (to_wake n s) s1)"
    using assms by (simp add: update_limit_def Let_def to_wake_def s1_def)
  also have "wake_loop (to_wake n s) s1 =
      s1\<lparr> waiters := drop (to_wake n s) (waiters s1),
         fut := (\<lambda>w. if w \<in> set (woken (to_wake n s) s1) then Finished else fut s1 w),
         granted := granted s1 @ woken (to_wake n s) s1,
         available := available s1 - int (length (woken (to_wake n s) s1)) \<rparr>"
    by (rule wake_loop_eq [OF k d])
  finally show ?thesis unfolding w by (simp add: s1_def cong: if_cong)
qed

section \<open>The accounting invariant\<close>

lemma accounted_start: "0 \<le> L \<Longrightarrow> accounted L (start L)"
  by (simp add: accounted_def start_def init_def inflight_def)

lemma finite_inflight: "finite A \<Longrightarrow> finite (inflight A f)"
  by (simp add: inflight_def)

lemma inflight_grant: "finite A \<Longrightarrow> card (inflight A (f(w := Finished))) \<le> Suc (card (inflight A f))"
proof -
  assume fin: "finite A"
  have "inflight A (f(w := Finished)) \<subseteq> insert w (inflight A f)"
    by (auto simp: inflight_def)
  then have "card (inflight A (f(w := Finished))) \<le> card (insert w (inflight A f))"
    using fin by (intro card_mono) (simp_all add: finite_inflight)
  also have "\<dots> \<le> Suc (card (inflight A f))"
    using fin by (simp add: card_insert_if finite_inflight)
  finally show ?thesis .
qed

lemma inflight_enqueue: "finite A \<Longrightarrow> card (inflight (insert n A) (f(n := Pending))) \<le> card (inflight A f)"
  by (rule card_mono) (auto simp: inflight_def)

lemma inflight_cancel: "finite A \<Longrightarrow> card (inflight A (f(w := Cancelled))) \<le> card (inflight A f)"
  by (rule card_mono) (auto simp: inflight_def)

lemma inflight_leave: "finite A \<Longrightarrow> card (inflight (A - {w}) f) \<le> card (inflight A f)"
  by (rule card_mono) (auto simp: inflight_def)

lemma inflight_take:
  "finite A \<Longrightarrow> w \<in> A \<Longrightarrow> f w = Finished \<Longrightarrow> Suc (card (inflight (A - {w}) f)) = card (inflight A f)"
proof -
  assume a: "finite A" "w \<in> A" "f w = Finished"
  have "inflight (A - {w}) f = inflight A f - {w}" by (auto simp: inflight_def)
  moreover have "w \<in> inflight A f" using a by (simp add: inflight_def)
  ultimately show ?thesis using a(1) card_Suc_Diff1 [of "inflight A f" w] by (simp add: finite_inflight)
qed

lemma accounted_step:
  assumes acc: "accounted L x" and e: "\<not> is_SetLimit e"
  shows "accounted L (step e x)"
proof -
  from acc have fin: "finite (awaiting x)" by (simp add: accounted_def)
  show ?thesis
  proof (cases e)
    case Acquire
    show ?thesis
    proof (cases "available (sem x) > 0")
      case True
      then show ?thesis using acc Acquire
        by (simp add: accounted_def acquire_begin_def)
    next
      case False
      then show ?thesis using acc Acquire inflight_enqueue [OF fin, where n = "next_fut (sem x)" and f = "fut (sem x)"]
        by (simp add: accounted_def acquire_begin_def)
    qed
  next
    case (Resume w)
    show ?thesis
    proof (cases "w \<in> awaiting x \<and> fut (sem x) w \<noteq> Pending")
      case False
      then show ?thesis using acc Resume by auto
    next
      case en: True
      show ?thesis
      proof (cases "fut (sem x) w = Cancelled \<or> w \<in> must_cancel x")
        case True
        then show ?thesis using acc Resume en inflight_leave [OF fin, where w = w and f = "fut (sem x)"]
          by (simp add: accounted_def acquire_resume_def)
      next
        case False
        with en have fw: "fut (sem x) w = Finished" by (cases "fut (sem x) w") auto
        have "Suc (card (inflight (awaiting x - {w}) (fut (sem x)))) = card (inflight (awaiting x) (fut (sem x)))"
          using inflight_take [where A = "awaiting x" and w = w and f = "fut (sem x)"] fin fw en by simp
        then show ?thesis using acc Resume en False
          by (simp add: accounted_def acquire_resume_def)
      qed
    qed
  next
    case (Cancel w)
    then show ?thesis using acc inflight_cancel [OF fin, where w = w and f = "fut (sem x)"]
      by (simp add: accounted_def)
  next
    case Release
    then show ?thesis using acc by (simp add: accounted_def release_def)
  next
    case RunRelease
    show ?thesis
    proof (cases "release_tasks x > 0")
      case False
      then show ?thesis using acc RunRelease by simp
    next
      case en: True
      show ?thesis
      proof (cases "dropWhile (\<lambda>w. fut (sem x) w \<noteq> Pending) (waiters (sem x))")
        case Nil
        have "release_async (sem x) = (sem x)\<lparr> active_count := active_count (sem x) - 1,
                waiters := [], available := available (sem x) + 1 \<rparr>"
          unfolding release_async_eq Nil by simp
        then show ?thesis using acc RunRelease en
          by (simp add: accounted_def)
      next
        case (Cons w rest)
        have "release_async (sem x) = (sem x)\<lparr> active_count := active_count (sem x) - 1,
                waiters := rest, fut := (fut (sem x))(w := Finished),
                granted := granted (sem x) @ [w] \<rparr>"
          unfolding release_async_eq Cons by simp
        then show ?thesis using acc RunRelease en inflight_grant [OF fin, where w = w and f = "fut (sem x)"]
          by (simp add: accounted_def)
      qed
    qed
  next
    case (SetLimit n)
    then show ?thesis using e by simp
  qed
qed

lemma accounted_run:
  "accounted L x \<Longrightarrow> list_all (\<lambda>e. \<not> is_SetLimit e) evs \<Longrightarrow> accounted L (run evs x)"
  by (induction evs arbitrary: x) (simp_all add: accounted_step)

section \<open>The order invariant\<close>

lemma sorted_wrt_append_sub:
  "sorted_wrt (<) (g @ ws) \<Longrightarrow> sorted_wrt (<) ws' \<Longrightarrow> set ws' \<subseteq> set ws
   \<Longrightarrow> sorted_wrt (<) (g @ (ws' :: nat list))"
  by (auto simp: sorted_wrt_append)

lemma queue_orderedI:
  "queue_ordered s \<Longrightarrow> sorted_wrt (<) ws' \<Longrightarrow> set ws' \<subseteq> set (waiters s) \<Longrightarrow>
   granted s' = granted s \<Longrightarrow> waiters s' = ws' \<Longrightarrow> next_fut s' = next_fut s \<Longrightarrow>
   queue_ordered s'"
  unfolding queue_ordered_def
  using sorted_wrt_append_sub [of "granted s" "waiters s" ws'] by auto

lemma queue_ordered_init: "queue_ordered (init v)"
  by (simp add: queue_ordered_def init_def)

lemma queue_ordered_acquire_begin: "queue_ordered s \<Longrightarrow> queue_ordered (snd (acquire_begin s))"
  by (auto simp: queue_ordered_def acquire_begin_def sorted_wrt_append less_Suc_eq)

lemma sorted_wrt_remove1: "sorted_wrt (<) (ws :: nat list) \<Longrightarrow> sorted_wrt (<) (remove1 w ws)"
  by (simp add: strict_sorted_iff sorted_remove1)

lemma queue_ordered_acquire_resume:
  assumes "queue_ordered s"
  shows "queue_ordered (snd (acquire_resume w r s))"
proof (cases r)
  case False
  then show ?thesis using assms by (simp add: acquire_resume_def queue_ordered_def)
next
  case True
  have "sorted_wrt (<) (waiters s)" using assms by (simp add: queue_ordered_def sorted_wrt_append)
  then have "sorted_wrt (<) (remove1 w (waiters s))" by (rule sorted_wrt_remove1)
  moreover have "set (remove1 w (waiters s)) \<subseteq> set (waiters s)"
    by (rule set_remove1_subset)
  moreover have "snd (acquire_resume w r s) = s\<lparr> waiters := remove1 w (waiters s) \<rparr>"
    using True by (simp add: acquire_resume_def)
  ultimately show ?thesis
    by (intro queue_orderedI [OF assms, of "remove1 w (waiters s)"]) simp_all
qed

lemma queue_ordered_fut: "queue_ordered (s\<lparr> fut := f \<rparr>) = queue_ordered s"
  by (simp add: queue_ordered_def)

lemma queue_ordered_release_async:
  assumes "queue_ordered s"
  shows "queue_ordered (release_async s)"
proof (cases "dropWhile (\<lambda>w. fut s w \<noteq> Pending) (waiters s)")
  case Nil
  have "release_async s = s\<lparr> active_count := active_count s - 1, waiters := [],
                             available := available s + 1 \<rparr>"
    unfolding release_async_eq Nil by simp
  then show ?thesis
    using assms by (intro queue_orderedI [OF assms, of "[]"]) simp_all
next
  case (Cons w rest)
  have eq: "release_async s = s\<lparr> active_count := active_count s - 1, waiters := rest,
               fut := (fut s)(w := Finished), granted := granted s @ [w] \<rparr>"
    unfolding release_async_eq Cons by simp
  have so: "sorted_wrt (<) (waiters s)"
    using assms by (simp add: queue_ordered_def sorted_wrt_append)
  have "sorted_wrt (<) (dropWhile (\<lambda>w. fut s w \<noteq> Pending) (waiters s))"
    using so by simp
  then have s1: "sorted_wrt (<) (w # rest)" unfolding Cons .
  have "set (dropWhile (\<lambda>w. fut s w \<noteq> Pending) (waiters s)) \<subseteq> set (waiters s)"
    by (auto dest: set_dropWhileD)
  then have s2: "set (w # rest) \<subseteq> set (waiters s)" unfolding Cons .
  have A: "sorted_wrt (<) (granted s @ (w # rest))"
    by (rule sorted_wrt_append_sub [of _ "waiters s"])
       (use assms s1 s2 in \<open>simp_all add: queue_ordered_def\<close>)
  have "set (granted s @ w # rest) \<subseteq> set (granted s @ waiters s)"
    using s2 by auto
  then have B: "\<forall>x \<in> set (granted s @ w # rest). x < next_fut s"
    using assms unfolding queue_ordered_def by blast
  show ?thesis
    unfolding eq queue_ordered_def using A B by simp
qed

lemma queue_ordered_wake_loop: "queue_ordered s \<Longrightarrow> queue_ordered (wake_loop k s)"
proof (induction k arbitrary: s)
  case 0
  then show ?case by simp
next
  case (Suc k)
  show ?case
  proof (cases "waiters s")
    case Nil
    then show ?thesis using Suc by simp
  next
    case (Cons w ws)
    have a: "queue_ordered (s\<lparr> waiters := ws \<rparr>)"
      using Suc.prems Cons by (auto simp: queue_ordered_def sorted_wrt_append)
    have b: "queue_ordered (s\<lparr> waiters := ws, fut := (fut s)(w := Finished),
                               granted := granted s @ [w], available := available s - 1 \<rparr>)"
      using Suc.prems Cons by (auto simp: queue_ordered_def sorted_wrt_append)
    show ?thesis
      using Cons Suc.IH [OF a] Suc.IH [OF b] by simp
  qed
qed

lemma queue_ordered_cancel_loop:
  assumes "queue_ordered s"
  shows "queue_ordered (cancel_loop a s)"
proof -
  have "sorted_wrt (<) (waiters s)" using assms by (simp add: queue_ordered_def sorted_wrt_append)
  then have "sorted_wrt (<) (take a (waiters s))"
    by (simp add: strict_sorted_iff sorted_wrt_take)
  then show ?thesis
    unfolding cancel_loop_eq
    by (intro queue_orderedI [OF assms, of "take a (waiters s)"]) (auto dest: in_set_takeD)
qed

lemma queue_ordered_attr:
  "queue_ordered (s\<lparr> max_value := m \<rparr>) = queue_ordered s"
  "queue_ordered (s\<lparr> available := v \<rparr>) = queue_ordered s"
  by (simp_all add: queue_ordered_def)

lemma queue_ordered_update_limit: "queue_ordered s \<Longrightarrow> queue_ordered (snd (update_limit n s))"
  by (simp add: update_limit_def Let_def queue_ordered_wake_loop queue_ordered_cancel_loop
                queue_ordered_attr)

lemma queue_ordered_step: "queue_ordered (sem x) \<Longrightarrow> queue_ordered (sem (step e x))"
proof (cases e)
  case Acquire
  assume "queue_ordered (sem x)"
  then have "queue_ordered (snd (acquire_begin (sem x)))" by (rule queue_ordered_acquire_begin)
  then show ?thesis using Acquire by (cases "acquire_begin (sem x)") (auto split: option.split)
next
  case (Resume w)
  assume q: "queue_ordered (sem x)"
  then have "queue_ordered (snd (acquire_resume w (fut (sem x) w = Cancelled \<or> w \<in> must_cancel x) (sem x)))"
    by (rule queue_ordered_acquire_resume)
  then show ?thesis using Resume q
    by (cases "acquire_resume w (fut (sem x) w = Cancelled \<or> w \<in> must_cancel x) (sem x)")
       (auto split: option.split)
next
  case (Cancel w)
  assume "queue_ordered (sem x)"
  then show ?thesis using Cancel by (simp add: queue_ordered_fut)
next
  case Release
  assume "queue_ordered (sem x)"
  then show ?thesis using Release by (simp add: release_def)
next
  case RunRelease
  assume "queue_ordered (sem x)"
  then show ?thesis using RunRelease by (simp add: queue_ordered_release_async)
next
  case (SetLimit n)
  assume "queue_ordered (sem x)"
  then show ?thesis using SetLimit by (simp add: queue_ordered_update_limit)
qed

lemma queue_ordered_run: "queue_ordered (sem x) \<Longrightarrow> queue_ordered (sem (run evs x))"
  by (induction evs arbitrary: x) (simp_all add: queue_ordered_step)

section \<open>The limit of an execution\<close>












section \<open>Concurrent permits at a fixed limit\<close>

text \<open>
  Claim C1. For every sequence of steps without \<open>update_limit\<close>, started from a
  semaphore built with a limit \<open>L \<ge> 0\<close>, the number of callers whose \<open>acquire\<close>
  returned and who have not released never exceeds \<open>L\<close>. Moreover
  \<open>_active_count\<close> is exactly the number of these callers plus the releases that are
  scheduled and have not run, and it does not exceed \<open>L\<close> either. Cancellations of
  waiting callers are part of the sequences.
\<close>

theorem permits_bounded_at_fixed_limit:
  assumes "0 \<le> L" and "list_all (\<lambda>e. \<not> is_SetLimit e) evs"
  shows "int (holders (run evs (start L))) \<le> L
       \<and> active_count (sem (run evs (start L)))
           = int (holders (run evs (start L)) + release_tasks (run evs (start L)))
       \<and> active_count (sem (run evs (start L))) \<le> L
       \<and> max_value (sem (run evs (start L))) = L"
proof -
  have "accounted L (run evs (start L))"
    using assms by (intro accounted_run accounted_start)
  then show ?thesis
    by (simp add: accounted_def)
qed

theorem permits_bounded_at_fixed_limit_witness:
  "(0::int) \<le> 1
   \<and> list_all (\<lambda>e. \<not> is_SetLimit e) [Acquire, Acquire, Release, RunRelease, Resume 0]
   \<and> int (holders (run [Acquire, Acquire, Release, RunRelease, Resume 0] (start 1))) \<le> 1
   \<and> holders (run [Acquire, Acquire, Release, RunRelease, Resume 0] (start 1)) = 1"
  using permits_bounded_at_fixed_limit [of 1 "[Acquire, Acquire, Release, RunRelease, Resume 0]"]
  by (simp add: sem_defs)

section \<open>Shrinking the limit\<close>

text \<open>
  Claim C3. For every shrink (\<open>0 < n < _max_value\<close>), \<open>update_limit n\<close> succeeds,
  sets the limit to \<open>n\<close>, leaves \<open>_active_count\<close> alone, sets \<open>_available\<close> to
  \<open>0\<close> when \<open>n < _active_count\<close> (the over-commitment window) and to
  \<open>n - _active_count\<close> otherwise, keeps the first \<open>allowed_waiting = max(0, n - active)\<close>
  waiters of the queue and removes all later ones, that is the newest, cancelling those
  of them that are still pending; the queue ends no longer than \<open>allowed_waiting\<close>.
  In particular, for every state with limit 2, two active holders and one pending
  waiter in the queue, \<open>update_limit 1\<close> leaves \<open>_active_count\<close> at 2, sets
  \<open>_available\<close> to 0 and cancels the waiter.
\<close>

theorem shrink_cancels_newest_waiters:
  "(0 < n \<and> n < max_value s \<longrightarrow>
      update_limit n s =
        (None, s\<lparr> max_value := n,
                  available := (if n < active_count s then 0 else n - active_count s),
                  waiters := take (allowed_waiting n s) (waiters s),
                  fut := (\<lambda>w. if w \<in> set (drop (allowed_waiting n s) (waiters s)) \<and> fut s w = Pending
                               then Cancelled else fut s w) \<rparr>)
      \<and> length (waiters (snd (update_limit n s))) \<le> allowed_waiting n s
      \<and> active_count (snd (update_limit n s)) = active_count s)
   \<and> (max_value s = 2 \<and> active_count s = 2 \<and> waiters s = [w] \<and> fut s w = Pending \<longrightarrow>
        allowed_waiting 1 s = 0
      \<and> update_limit 1 s =
          (None, s\<lparr> max_value := 1, available := 0, waiters := [],
                    fut := (fut s)(w := Cancelled) \<rparr>))"
proof (intro conjI impI)
  assume a: "0 < n \<and> n < max_value s"
  then show g: "update_limit n s =
        (None, s\<lparr> max_value := n,
                  available := (if n < active_count s then 0 else n - active_count s),
                  waiters := take (allowed_waiting n s) (waiters s),
                  fut := (\<lambda>w. if w \<in> set (drop (allowed_waiting n s) (waiters s)) \<and> fut s w = Pending
                               then Cancelled else fut s w) \<rparr>)"
    by (simp add: update_limit_shrink)
  show "length (waiters (snd (update_limit n s))) \<le> allowed_waiting n s"
    unfolding g by simp
  show "active_count (snd (update_limit n s)) = active_count s"
    unfolding g by simp
next
  assume b: "max_value s = 2 \<and> active_count s = 2 \<and> waiters s = [w] \<and> fut s w = Pending"
  then show z: "allowed_waiting 1 s = 0" by (simp add: allowed_waiting_def)
  have f: "(\<lambda>v. if v \<in> set (drop (allowed_waiting 1 s) (waiters s)) \<and> fut s v = Pending
                 then Cancelled else fut s v) = (fut s)(w := Cancelled)"
    using b by (auto simp: z)
  have "update_limit 1 s =
        (None, s\<lparr> max_value := 1,
                  available := (if 1 < active_count s then 0 else 1 - active_count s),
                  waiters := take (allowed_waiting 1 s) (waiters s),
                  fut := (\<lambda>w. if w \<in> set (drop (allowed_waiting 1 s) (waiters s)) \<and> fut s w = Pending
                               then Cancelled else fut s w) \<rparr>)"
    using b by (intro update_limit_shrink) simp_all
  then show "update_limit 1 s =
          (None, s\<lparr> max_value := 1, available := 0, waiters := [],
                    fut := (fut s)(w := Cancelled) \<rparr>)"
    unfolding f using b by (simp add: z)
qed

theorem shrink_cancels_newest_waiters_witness:
  "0 < (1::int) \<and> 1 < max_value (sem (run [Acquire, Acquire, Acquire] (start 2)))
   \<and> max_value (sem (run [Acquire, Acquire, Acquire] (start 2))) = 2
   \<and> active_count (sem (run [Acquire, Acquire, Acquire] (start 2))) = 2
   \<and> waiters (sem (run [Acquire, Acquire, Acquire] (start 2))) = [0]
   \<and> fut (sem (run [Acquire, Acquire, Acquire] (start 2))) 0 = Pending
   \<and> fst (update_limit 1 (sem (run [Acquire, Acquire, Acquire] (start 2)))) = None
   \<and> active_count (snd (update_limit 1 (sem (run [Acquire, Acquire, Acquire] (start 2))))) = 2
   \<and> available (snd (update_limit 1 (sem (run [Acquire, Acquire, Acquire] (start 2))))) = 0
   \<and> waiters (snd (update_limit 1 (sem (run [Acquire, Acquire, Acquire] (start 2))))) = []
   \<and> fut (snd (update_limit 1 (sem (run [Acquire, Acquire, Acquire] (start 2))))) 0 = Cancelled"
  using shrink_cancels_newest_waiters
          [of 1 "sem (run [Acquire, Acquire, Acquire] (start 2))" 0]
  by (simp add: sem_defs)

section \<open>Growing the limit\<close>

text \<open>
  The growing branch of \<open>update_limit\<close> in closed form. For every \<open>update_limit n\<close>
  with \<open>n > _max_value\<close>, \<open>n > 0\<close> and \<open>delta = n - _active_count \<ge> 0\<close>, on a queue
  without duplicates: the first \<open>to_wake = min(len(queue), delta)\<close> entries leave the
  queue from its head, those of them that are still pending are woken in queue order
  (oldest first), and \<open>_available\<close> ends at \<open>delta\<close> minus the number of waiters
  woken. The queue of every execution is without duplicates, each future being appended
  once. In particular, for every state with limit 1, one active holder and two distinct
  pending waiters \<open>a\<close>, \<open>b\<close> queued in this order, \<open>update_limit 3\<close> wakes \<open>a\<close>
  then \<open>b\<close> and leaves \<open>_available = 0\<close>; when both of them resume without a
  cancellation, the run of that scenario from a new semaphore ends with
  \<open>_active_count = 3\<close> and \<open>_available = 0\<close>.
\<close>

theorem update_limit_grow_wakes_oldest:
  "(0 < n \<and> max_value s < n \<and> active_count s \<le> n \<and> distinct (waiters s) \<longrightarrow>
      to_wake n s = min (length (waiters s)) (nat (n - active_count s))
    \<and> update_limit n s =
        (None, s\<lparr> max_value := n,
                  available := n - active_count s - int (length (woken (to_wake n s) s)),
                  waiters := drop (to_wake n s) (waiters s),
                  fut := (\<lambda>w. if w \<in> set (woken (to_wake n s) s) then Finished else fut s w),
                  granted := granted s @ woken (to_wake n s) s \<rparr>))
   \<and> distinct (waiters (sem (run evs (start L))))
   \<and> (max_value s = 1 \<and> active_count s = 1 \<and> waiters s = [a, b] \<and> a \<noteq> b
        \<and> fut s a = Pending \<and> fut s b = Pending \<longrightarrow>
        update_limit 3 s =
          (None, s\<lparr> max_value := 3, available := 0, waiters := [],
                    fut := (fut s)(a := Finished, b := Finished),
                    granted := granted s @ [a, b] \<rparr>))
   \<and> active_count (sem (run [Acquire, Acquire, Acquire, SetLimit 3, Resume 0, Resume 1] (start 1))) = 3
   \<and> available (sem (run [Acquire, Acquire, Acquire, SetLimit 3, Resume 0, Resume 1] (start 1))) = 0
   \<and> granted (sem (run [Acquire, Acquire, Acquire, SetLimit 3, Resume 0, Resume 1] (start 1))) = [0, 1]
   \<and> holders (run [Acquire, Acquire, Acquire, SetLimit 3, Resume 0, Resume 1] (start 1)) = 3"
proof (intro conjI impI)
  assume a: "0 < n \<and> max_value s < n \<and> active_count s \<le> n \<and> distinct (waiters s)"
  then show "to_wake n s = min (length (waiters s)) (nat (n - active_count s))"
    unfolding to_wake_def by arith
  show "update_limit n s =
        (None, s\<lparr> max_value := n,
                  available := n - active_count s - int (length (woken (to_wake n s) s)),
                  waiters := drop (to_wake n s) (waiters s),
                  fut := (\<lambda>w. if w \<in> set (woken (to_wake n s) s) then Finished else fut s w),
                  granted := granted s @ woken (to_wake n s) s \<rparr>)"
    using a by (intro update_limit_grow) simp_all
next
  have "queue_ordered (sem (start L))" by (simp add: start_def queue_ordered_init)
  then have "queue_ordered (sem (run evs (start L)))" by (rule queue_ordered_run)
  then have "sorted_wrt (<) (waiters (sem (run evs (start L))))"
    by (simp add: queue_ordered_def sorted_wrt_append)
  then show "distinct (waiters (sem (run evs (start L))))"
    by (simp add: strict_sorted_iff)
next
  assume b: "max_value s = 1 \<and> active_count s = 1 \<and> waiters s = [a, b] \<and> a \<noteq> b
        \<and> fut s a = Pending \<and> fut s b = Pending"
  then have tw: "to_wake 3 s = 2" by (simp add: to_wake_def)
  have wk: "woken 2 s = [a, b]" using b by (simp add: woken_def)
  have f: "(\<lambda>w. if w \<in> set (woken (to_wake 3 s) s) then Finished else fut s w)
         = (fut s)(a := Finished, b := Finished)"
    unfolding tw wk by auto
  have "update_limit 3 s =
        (None, s\<lparr> max_value := 3,
                  available := 3 - active_count s - int (length (woken (to_wake 3 s) s)),
                  waiters := drop (to_wake 3 s) (waiters s),
                  fut := (\<lambda>w. if w \<in> set (woken (to_wake 3 s) s) then Finished else fut s w),
                  granted := granted s @ woken (to_wake 3 s) s \<rparr>)"
    using b by (intro update_limit_grow) simp_all
  then show "update_limit 3 s =
          (None, s\<lparr> max_value := 3, available := 0, waiters := [],
                    fut := (fut s)(a := Finished, b := Finished),
                    granted := granted s @ [a, b] \<rparr>)"
    unfolding f unfolding tw wk using b by simp
qed (simp_all add: sem_defs)

theorem update_limit_grow_wakes_oldest_instance:
  "0 < (3::int) \<and> max_value (sem (run [Acquire, Acquire, Acquire] (start 1))) < 3
   \<and> active_count (sem (run [Acquire, Acquire, Acquire] (start 1))) \<le> 3
   \<and> distinct (waiters (sem (run [Acquire, Acquire, Acquire] (start 1))))
   \<and> max_value (sem (run [Acquire, Acquire, Acquire] (start 1))) = 1
   \<and> active_count (sem (run [Acquire, Acquire, Acquire] (start 1))) = 1
   \<and> waiters (sem (run [Acquire, Acquire, Acquire] (start 1))) = [0, 1] \<and> (0::nat) \<noteq> 1
   \<and> fut (sem (run [Acquire, Acquire, Acquire] (start 1))) 0 = Pending
   \<and> fut (sem (run [Acquire, Acquire, Acquire] (start 1))) 1 = Pending
   \<and> to_wake 3 (sem (run [Acquire, Acquire, Acquire] (start 1))) = 2
   \<and> fst (update_limit 3 (sem (run [Acquire, Acquire, Acquire] (start 1)))) = None
   \<and> available (snd (update_limit 3 (sem (run [Acquire, Acquire, Acquire] (start 1))))) = 0
   \<and> waiters (snd (update_limit 3 (sem (run [Acquire, Acquire, Acquire] (start 1))))) = []
   \<and> granted (snd (update_limit 3 (sem (run [Acquire, Acquire, Acquire] (start 1))))) = [0, 1]"
  using update_limit_grow_wakes_oldest
          [of 3 "sem (run [Acquire, Acquire, Acquire] (start 1))" "[]" 1 0 1]
  by (simp add: sem_defs to_wake_def)

text \<open>
  Claim C4 asks that every waiter woken by a growing \<open>update_limit\<close> increments
  \<open>_active_count\<close> when it resumes, so that limit 1, one holder and the waiters A, B
  end after \<open>update_limit(3)\<close> at \<open>_active_count = 3\<close>, \<open>_available = 0\<close>. The run
  below is that scenario with the task of A cancelled after \<open>update_limit(3)\<close> has woken
  it and before the event loop resumes it. \<open>update_limit(3)\<close> wakes A (future 0) and B
  (future 1) and leaves \<open>_available = 0\<close>, having taken one permit off for each of
  them. The cancellation finds the future of A done, so the task is only marked; at its
  resumption \<open>await waiter\<close> raises \<open>CancelledError\<close>, the handler of \<open>acquire\<close>
  finds nothing to remove and re-raises, and \<open>_active_count\<close> is not incremented.
  Once B has resumed, the limit is 3 and two callers hold a permit, with
  \<open>_active_count = 2\<close> and \<open>_available = 0\<close>: the permit taken off for A is counted
  nowhere, nobody waits, no release is scheduled, and the next \<open>acquire\<close> is suspended.
\<close>

theorem grow_then_cancel_loses_permit:
  "waiters (sem (run [Acquire, Acquire, Acquire] (start 1))) = [0, 1]
   \<and> active_count (sem (run [Acquire, Acquire, Acquire] (start 1))) = 1
   \<and> fut (sem (run [Acquire, Acquire, Acquire, SetLimit 3] (start 1))) 0 = Finished
   \<and> fut (sem (run [Acquire, Acquire, Acquire, SetLimit 3] (start 1))) 1 = Finished
   \<and> granted (sem (run [Acquire, Acquire, Acquire, SetLimit 3] (start 1))) = [0, 1]
   \<and> available (sem (run [Acquire, Acquire, Acquire, SetLimit 3] (start 1))) = 0
   \<and> must_cancel (run [Acquire, Acquire, Acquire, SetLimit 3, Cancel 0] (start 1)) = {0}
   \<and> fst (acquire_resume 0 True
            (sem (run [Acquire, Acquire, Acquire, SetLimit 3, Cancel 0] (start 1))))
       = Some CancelledError
   \<and> active_count (sem (run [Acquire, Acquire, Acquire, SetLimit 3, Cancel 0, Resume 0] (start 1))) = 1
   \<and> max_value (sem (run [Acquire, Acquire, Acquire, SetLimit 3, Cancel 0, Resume 0, Resume 1] (start 1))) = 3
   \<and> active_count (sem (run [Acquire, Acquire, Acquire, SetLimit 3, Cancel 0, Resume 0, Resume 1] (start 1))) = 2
   \<and> available (sem (run [Acquire, Acquire, Acquire, SetLimit 3, Cancel 0, Resume 0, Resume 1] (start 1))) = 0
   \<and> waiters (sem (run [Acquire, Acquire, Acquire, SetLimit 3, Cancel 0, Resume 0, Resume 1] (start 1))) = []
   \<and> holders (run [Acquire, Acquire, Acquire, SetLimit 3, Cancel 0, Resume 0, Resume 1] (start 1)) = 2
   \<and> release_tasks (run [Acquire, Acquire, Acquire, SetLimit 3, Cancel 0, Resume 0, Resume 1] (start 1)) = 0
   \<and> awaiting (run [Acquire, Acquire, Acquire, SetLimit 3, Cancel 0, Resume 0, Resume 1] (start 1)) = {}
   \<and> fst (acquire_begin
            (sem (run [Acquire, Acquire, Acquire, SetLimit 3, Cancel 0, Resume 0, Resume 1] (start 1))))
       = Some 2"
  by (auto simp: sem_defs)

section \<open>Release\<close>

text \<open>
  Claim C8 as stated fails: \<open>release()\<close> does fail in some call context. Called by the
  holder of the permit where no event loop is running (from synchronous code, or from
  another thread than the loop's), \<open>asyncio.create_task\<close> raises \<open>RuntimeError\<close>,
  \<open>release()\<close> propagates it, and the permit stays counted in \<open>_active_count\<close>.
\<close>

theorem release_fails_without_running_loop:
  "fst (release False (run [Acquire] (start 1))) = Some RuntimeError
   \<and> active_count (sem (snd (release False (run [Acquire] (start 1))))) = 1
   \<and> available (sem (snd (release False (run [Acquire] (start 1))))) = 0
   \<and> release_tasks (snd (release False (run [Acquire] (start 1)))) = 0"
  by (simp add: sem_defs)

text \<open>
  Claim C8, amended. Called where an event loop is running, \<open>release()\<close> neither
  suspends nor fails: it returns at once, having scheduled one \<open>_release_async\<close> task
  and touched no attribute of the semaphore. Called where none is running, it raises
  \<open>RuntimeError\<close> and changes nothing. For every caller that holds a permit, its
  \<open>release()\<close> followed by the run of a scheduled \<open>_release_async\<close> has on the
  semaphore exactly the effect of \<open>_release_async\<close>, with one holder less and the
  number of scheduled releases as before. \<open>_release_async\<close> has a result in every
  state: it decrements \<open>_active_count\<close> by one, then either grants the head-most
  waiter that is still pending, dropping the done ones before it and leaving
  \<open>_active_count\<close> and \<open>_available\<close> as they are, or, when no waiter is pending,
  empties the queue and increments \<open>_available\<close>. When the head of the queue is
  pending it is the one granted; when the queue is empty \<open>_available\<close> is
  incremented.
\<close>

theorem release_schedules_release_async:
  "release True x = (None, x\<lparr> release_tasks := release_tasks x + 1 \<rparr>)
   \<and> release False x = (Some RuntimeError, x)
   \<and> sem (snd (release running x)) = sem x
   \<and> (0 < holders x \<longrightarrow>
        sem (run [Release, RunRelease] x) = release_async (sem x)
      \<and> holders (run [Release, RunRelease] x) = holders x - 1
      \<and> release_tasks (run [Release, RunRelease] x) = release_tasks x
      \<and> sem (step Release x) = sem x
      \<and> release_tasks (step Release x) = release_tasks x + 1)
   \<and> release_async s =
       (case dropWhile (\<lambda>w. fut s w \<noteq> Pending) (waiters s) of
          [] \<Rightarrow> s\<lparr> active_count := active_count s - 1, waiters := [],
                    available := available s + 1 \<rparr>
        | w # rest \<Rightarrow> s\<lparr> active_count := active_count s - 1, waiters := rest,
                          fut := (fut s)(w := Finished), granted := granted s @ [w] \<rparr>)
   \<and> active_count (release_async s) = active_count s - 1
   \<and> (waiters s = w # ws \<and> fut s w = Pending \<longrightarrow>
        release_async s =
          s\<lparr> active_count := active_count s - 1, waiters := ws,
             fut := (fut s)(w := Finished), granted := granted s @ [w] \<rparr>)
   \<and> (waiters s = [] \<longrightarrow>
        release_async s =
          s\<lparr> active_count := active_count s - 1, waiters := [],
             available := available s + 1 \<rparr>)"
proof (intro conjI impI)
  show "release True x = (None, x\<lparr> release_tasks := release_tasks x + 1 \<rparr>)"
    by (simp add: release_def)
  show "release False x = (Some RuntimeError, x)"
    by (simp add: release_def)
  show "sem (snd (release running x)) = sem x"
    by (simp add: release_def)
  show "release_async s =
       (case dropWhile (\<lambda>w. fut s w \<noteq> Pending) (waiters s) of
          [] \<Rightarrow> s\<lparr> active_count := active_count s - 1, waiters := [],
                    available := available s + 1 \<rparr>
        | w # rest \<Rightarrow> s\<lparr> active_count := active_count s - 1, waiters := rest,
                          fut := (fut s)(w := Finished), granted := granted s @ [w] \<rparr>)"
    by (rule release_async_eq)
  show "active_count (release_async s) = active_count s - 1"
    unfolding release_async_eq by (simp split: list.split)
next
  assume h: "0 < holders x"
  then show "sem (run [Release, RunRelease] x) = release_async (sem x)"
    by (simp add: release_def)
  show "holders (run [Release, RunRelease] x) = holders x - 1"
    using h by (simp add: release_def)
  show "release_tasks (run [Release, RunRelease] x) = release_tasks x"
    using h by (simp add: release_def)
  show "sem (step Release x) = sem x"
    using h by (simp add: release_def)
  show "release_tasks (step Release x) = release_tasks x + 1"
    using h by (simp add: release_def)
next
  assume "waiters s = w # ws \<and> fut s w = Pending"
  then show "release_async s =
          s\<lparr> active_count := active_count s - 1, waiters := ws,
             fut := (fut s)(w := Finished), granted := granted s @ [w] \<rparr>"
    by (simp add: release_async_def)
next
  assume "waiters s = []"
  then show "release_async s =
          s\<lparr> active_count := active_count s - 1, waiters := [],
             available := available s + 1 \<rparr>"
    by (simp add: release_async_def)
qed

theorem release_schedules_release_async_witness:
  "0 < holders (run [Acquire, Acquire] (start 1))
   \<and> waiters (sem (run [Acquire, Acquire] (start 1))) = [0]
   \<and> fut (sem (run [Acquire, Acquire] (start 1))) 0 = Pending
   \<and> waiters (init 1) = []
   \<and> sem (run [Release, RunRelease] (run [Acquire, Acquire] (start 1)))
       = release_async (sem (run [Acquire, Acquire] (start 1)))
   \<and> holders (run [Release, RunRelease] (run [Acquire, Acquire] (start 1))) = 0
   \<and> active_count (release_async (sem (run [Acquire, Acquire] (start 1)))) = 0
   \<and> available (release_async (sem (run [Acquire, Acquire] (start 1)))) = 0
   \<and> fut (release_async (sem (run [Acquire, Acquire] (start 1)))) 0 = Finished
   \<and> waiters (release_async (sem (run [Acquire, Acquire] (start 1)))) = []
   \<and> available (release_async (init 1)) = 2"
  using release_schedules_release_async
          [of "run [Acquire, Acquire] (start 1)" _ "sem (run [Acquire, Acquire] (start 1))" 0 "[]"]
        release_schedules_release_async [of _ _ "init 1"]
  by (simp add: sem_defs)

section \<open>Cancellation after a grant\<close>

text \<open>
  Claim C2 asks that a caller whose cancellation races with a grant either ends with a
  usable permit or observes \<open>CancelledError\<close> with no permit consumed. The run below
  is that race at limit 1: the first caller holds the permit, the second one waits on
  future 0, the holder releases, \<open>_release_async\<close> grants future 0, and the waiting
  task is cancelled before the event loop resumes it. The second caller then leaves
  \<open>acquire\<close> with \<open>CancelledError\<close> (its handler only removes the future from the
  queue), and the permit that was handed to it is gone: nobody holds a permit, no
  release is scheduled, nobody waits, the limit is 1, and yet \<open>_available\<close> is 0, so
  that the next \<open>acquire\<close> is suspended. Without the cancellation the same run ends
  with one holder, and a cancellation before the release leaves the permit available.
\<close>

theorem cancel_after_grant_loses_permit:
  "holders (run [Acquire, Acquire, Release, RunRelease, Cancel 0, Resume 0] (start 1)) = 0
   \<and> release_tasks (run [Acquire, Acquire, Release, RunRelease, Cancel 0, Resume 0] (start 1)) = 0
   \<and> awaiting (run [Acquire, Acquire, Release, RunRelease, Cancel 0, Resume 0] (start 1)) = {}
   \<and> granted (sem (run [Acquire, Acquire, Release, RunRelease, Cancel 0, Resume 0] (start 1))) = [0]
   \<and> max_value (sem (run [Acquire, Acquire, Release, RunRelease, Cancel 0, Resume 0] (start 1))) = 1
   \<and> active_count (sem (run [Acquire, Acquire, Release, RunRelease, Cancel 0, Resume 0] (start 1))) = 0
   \<and> available (sem (run [Acquire, Acquire, Release, RunRelease, Cancel 0, Resume 0] (start 1))) = 0
   \<and> waiters (sem (run [Acquire, Acquire, Release, RunRelease, Cancel 0, Resume 0] (start 1))) = []
   \<and> fst (acquire_resume 0 True
            (sem (run [Acquire, Acquire, Release, RunRelease, Cancel 0] (start 1))))
       = Some CancelledError
   \<and> fst (acquire_begin
            (sem (run [Acquire, Acquire, Release, RunRelease, Cancel 0, Resume 0] (start 1))))
       = Some 1
   \<and> holders (run [Acquire, Acquire, Release, RunRelease, Resume 0] (start 1)) = 1
   \<and> available (sem (run [Acquire, Acquire, Cancel 0, Resume 0, Release, RunRelease] (start 1))) = 1"
  by (simp add: sem_defs)

section \<open>Rejected limits\<close>

text \<open>
  Claim C5 on \<open>MonitoredSemaphore\<close>: \<open>update_limit(0)\<close> raises \<open>ValueError\<close> inside
  its own \<open>try\<close>, the \<open>except Exception\<close> of the same method catches it, and the
  call returns normally with the state unchanged: the caller sees no failure.
  \<open>CancellableMonitoredSemaphore.update_limit(0)\<close> on the same initial limit raises
  \<open>ValueError\<close> to its caller, state unchanged, and \<open>update_limit(2)\<close> at limit 2
  returns normally without any effect (in general: \<open>update_limit_invalid\<close>,
  \<open>update_limit_same\<close>).
\<close>

theorem monitored_update_limit_swallows_error:
  "m_update_limit_try 0 (m_init 2) = (Some ValueError, m_init 2)
   \<and> m_update_limit 0 (m_init 2) = (None, m_init 2)
   \<and> update_limit 0 (init 2) = (Some ValueError, init 2)
   \<and> update_limit 2 (init 2) = (None, init 2)"
  by (simp add: mon_defs update_limit_def init_def)

section \<open>The two resize strategies\<close>

text \<open>
  Claim C6. There is a sequence of operations on which the two classes differ in the
  number of concurrent holders and in the accounting they report: from limit 1, one
  acquire, a resize to 2 and two more acquires, \<open>CancellableMonitoredSemaphore\<close> has 2
  holders (within its limit 2) and queues the third caller, while
  \<open>MonitoredSemaphore\<close>, whose fresh semaphore starts with 2 free permits, has 3
  holders at limit 2 and reports \<open>available_permits = -1\<close>.
\<close>

theorem strategies_not_equivalent:
  "\<exists>evs. holders (run evs (start 1)) \<noteq> m_holders (m_run evs (m_start 1))
        \<and> active_count (sem (run evs (start 1))) \<noteq> m_active_count (mon (m_run evs (m_start 1)))
        \<and> available_permits (sem (run evs (start 1)))
            \<noteq> m_available_permits (mon (m_run evs (m_start 1)))
        \<and> current_limit (sem (run evs (start 1))) = m_current_limit (mon (m_run evs (m_start 1)))
        \<and> int (holders (run evs (start 1))) \<le> current_limit (sem (run evs (start 1)))
        \<and> int (m_holders (m_run evs (m_start 1))) > m_current_limit (mon (m_run evs (m_start 1)))"
proof (intro exI [of _ "[Acquire, SetLimit 2, Acquire, Acquire]"] conjI)
  show "holders (run [Acquire, SetLimit 2, Acquire, Acquire] (start 1))
        \<noteq> m_holders (m_run [Acquire, SetLimit 2, Acquire, Acquire] (m_start 1))"
    by (simp add: sem_defs mon_defs)
qed (simp_all add: sem_defs mon_defs current_limit_def available_permits_def m_current_limit_def)

section \<open>A boolean limit from the update URL\<close>

text \<open>
  Claim C10. For the response with status 200 and body \<open>{"limit": true}\<close>,
  \<open>_fetch_limit_from_url\<close> returns \<open>True\<close> instead of \<open>None\<close>, as it does for the
  integer 1 and unlike for the float \<open>1.0\<close> or the string \<open>"1"\<close>; the update pass
  then sets the limit of a semaphore of limit 5 to \<open>True\<close>, numerically 1.
\<close>

theorem fetch_accepts_json_true:
  "fetch_limit_from_url (Response 200 (Some (PDict [(''limit'', PBool True)]))) = Some (PBool True)
   \<and> fetch_limit_from_url (Response 200 (Some (PDict [(''limit'', PInt 1)]))) = Some (PInt 1)
   \<and> fetch_limit_from_url (Response 200 (Some (PDict [(''limit'', PFloat 1)]))) = None
   \<and> fetch_limit_from_url (Response 200 (Some (PDict [(''limit'', PStr ''1'')]))) = None
   \<and> max_value (update_tick (Response 200 (Some (PDict [(''limit'', PBool True)]))) True (init 5)) = 1
   \<and> available (update_tick (Response 200 (Some (PDict [(''limit'', PBool True)]))) True (init 5)) = 1"
  by (simp add: fetch_limit_from_url_def dict_get_def update_tick_def update_limit_def
                init_def allowed_waiting_def cancel_loop.simps Let_def)

section \<open>The status properties\<close>




section \<open>The order of grants\<close>

lemma granted_release_loop:
  "granted (release_loop ws s)
     = granted s @ (case List.find (\<lambda>w. fut s w = Pending) ws of None \<Rightarrow> [] | Some w \<Rightarrow> [w])"
  by (induction ws) simp_all

text \<open>
  Claim C7. In every execution, whatever the limit changes, the futures on which
  \<open>set_result\<close> is called are granted in strictly increasing order of creation, and
  all of them have been created; a future is created exactly when its caller is
  enqueued, with the next number, and is appended at the tail of the queue. So waiters
  are granted in the order in which they were enqueued, also under a constant limit.
  A run of \<open>_release_async\<close> grants at most one waiter, the first one of the queue that
  is still pending; neither piece of \<open>acquire\<close> grants anything.
\<close>

theorem waiters_granted_in_fifo_order:
  "sorted_wrt (<) (granted (sem (run evs (start L))))
   \<and> set (granted (sem (run evs (start L)))) \<subseteq> {..< next_fut (sem (run evs (start L)))}
   \<and> (available s \<le> 0 \<longrightarrow>
        acquire_begin s =
          (Some (next_fut s),
           s\<lparr> waiters := waiters s @ [next_fut s], fut := (fut s)(next_fut s := Pending),
              next_fut := Suc (next_fut s) \<rparr>))
   \<and> granted (release_async s)
       = granted s @ (case List.find (\<lambda>w. fut s w = Pending) (waiters s) of
                        None \<Rightarrow> [] | Some w \<Rightarrow> [w])
   \<and> granted (snd (acquire_begin s)) = granted s
   \<and> granted (snd (acquire_resume w r s)) = granted s"
proof (intro conjI impI)
  have "queue_ordered (sem (start L))" by (simp add: start_def queue_ordered_init)
  then have q: "queue_ordered (sem (run evs (start L)))" by (rule queue_ordered_run)
  then show "sorted_wrt (<) (granted (sem (run evs (start L))))"
    by (simp add: queue_ordered_def sorted_wrt_append)
  show "set (granted (sem (run evs (start L)))) \<subseteq> {..< next_fut (sem (run evs (start L)))}"
    using q by (auto simp: queue_ordered_def)
next
  assume "available s \<le> 0"
  then show "acquire_begin s =
          (Some (next_fut s),
           s\<lparr> waiters := waiters s @ [next_fut s], fut := (fut s)(next_fut s := Pending),
              next_fut := Suc (next_fut s) \<rparr>)"
    by (simp add: acquire_begin_def)
next
  show "granted (release_async s)
       = granted s @ (case List.find (\<lambda>w. fut s w = Pending) (waiters s) of
                        None \<Rightarrow> [] | Some w \<Rightarrow> [w])"
    by (simp add: release_async_def granted_release_loop)
next
  show "granted (snd (acquire_begin s)) = granted s" by (simp add: acquire_begin_def)
  show "granted (snd (acquire_resume w r s)) = granted s" by (simp add: acquire_resume_def)
qed

theorem waiters_granted_in_fifo_order_witness:
  "available (sem (run [Acquire] (start 1))) \<le> 0
   \<and> fst (acquire_begin (sem (run [Acquire] (start 1)))) = Some 0
   \<and> waiters (snd (acquire_begin (sem (run [Acquire, Acquire] (start 1))))) = [0, 1]
   \<and> granted (sem (run [Acquire, Acquire, Acquire, Acquire, Cancel 1, Release, RunRelease,
                          Resume 0, Release, RunRelease] (start 1))) = [0, 2]
   \<and> sorted_wrt (<) (granted (sem (run [Acquire, Acquire, Acquire, Acquire, Cancel 1, Release,
                          RunRelease, Resume 0, Release, RunRelease] (start 1))))"
  using waiters_granted_in_fifo_order
          [of "[Acquire, Acquire, Acquire, Acquire, Cancel 1, Release, RunRelease,
                Resume 0, Release, RunRelease]" 1 "sem (run [Acquire] (start 1))"]
  by (simp add: sem_defs)

end
